theory Spec2Isabelle
  imports Main "HOL-Library.Sublist"
begin

section \<open>The checkpoint operation of the elastic notebook\<close>

text \<open>
  This theory embeds \<^verbatim>\<open>elastic/core/notebook/checkpoint.py\<close>: the function
  \<^verbatim>\<open>checkpoint\<close>, which collects the active variable snapshots of the dependency graph,
  profiles their sizes, finds the pairs of snapshots that share storage, asks the selector
  for the snapshots to migrate, and hands the partition to the checkpoint writer.

  Python objects are mutable and compared by identity, so variable snapshots live in a
  store and are referred to by address. The store is a total function: a Python reference
  never dangles. Exceptions are values of the type \<open>error\<close>; a run of \<open>checkpoint\<close>
  yields the session as the call leaves it, the warnings it printed, the calls it made to
  its collaborators, and what it returned or raised.

  Two things the source does are left out. The console output other than the warning of
  the profiling loop is not recorded. The experiment log, appended to a file when
  \<^verbatim>\<open>write_log_location\<close> is given, holds wall-clock timings and is not recorded either;
  the three experiment arguments are still passed on to the selector as the source does.
\<close>

subsection \<open>Data\<close>

type_synonym vs_ref = nat
type_synonym ce_ref = nat

text \<open>The size of a snapshot: a byte count, or \<^verbatim>\<open>np.inf\<close>.\<close>

datatype vs_size = Bytes nat | Np_inf

text \<open>
  Modelled from the spec: the class \<^verbatim>\<open>VariableSnapshot\<close> is not part of the file; the
  fields are the attributes the spec lists (section 3), of which \<^verbatim>\<open>checkpoint\<close> reads
  \<^verbatim>\<open>name\<close> and \<^verbatim>\<open>deleted\<close> and writes \<^verbatim>\<open>size\<close>. No equality of snapshots is
  specified, so \<^verbatim>\<open>!=\<close> and set membership compare identities, here addresses.
\<close>

record VariableSnapshot =
  name :: string
  version :: nat
  size_vs :: vs_size
  deleted :: bool
  producing_edge :: "ce_ref option"

type_synonym vs_store = "vs_ref \<Rightarrow> VariableSnapshot"

text \<open>
  Modelled from the spec: the class \<^verbatim>\<open>DependencyGraph\<close> is not part of the file.
  \<^verbatim>\<open>variable_snapshots\<close> is the dictionary from a name to the list of its versions, in
  insertion order (the order \<^verbatim>\<open>.values()\<close> iterates in); the compute edges are the
  other half of the graph (section 3), which \<^verbatim>\<open>checkpoint\<close> never reads.
\<close>

record DependencyGraph =
  variable_snapshots :: "(string \<times> vs_ref list) list"
  cell_executions :: "ce_ref list"

text \<open>
  A live value of the user namespace. \<^verbatim>\<open>module_attr\<close> is what
  \<^verbatim>\<open>getattr(obj, "__module__", None)\<close> gives: \<open>None\<close> when the attribute is absent or
  is \<^verbatim>\<open>None\<close>.
\<close>

record pyobj =
  module_attr :: "string option"
  contents :: "nat list"

text \<open>
  A fingerprint entry is a tuple: an identity token, the set of storage-region
  identifiers, and the hashed object, which is an \<^verbatim>\<open>UnserializableObj\<close> or not.
\<close>

datatype hashed_obj = UnserializableObj | Hashed nat

type_synonym fingerprint = "nat \<times> nat set \<times> hashed_obj"

definition item1 :: "fingerprint \<Rightarrow> nat set" where
  "item1 e = fst (snd e)"

definition item2 :: "fingerprint \<Rightarrow> hashed_obj" where
  "item2 e = snd (snd e)"

datatype error = IndexError | KeyError string | Failure string

text \<open>
  The selector, with the attributes \<^verbatim>\<open>checkpoint\<close> assigns and reads. The type of
  \<^verbatim>\<open>recomputation_ces\<close> is the selector's own business and stays a parameter.
  A Python set is a list without duplicates here; only its elements matter to the claims.
\<close>

record 'r Selector =
  dependency_graph :: "DependencyGraph option"
  active_vss :: "vs_ref list"
  overlapping_vss :: "(vs_ref \<times> vs_ref) list"
  recomputation_ces :: 'r

text \<open>What a call of \<^verbatim>\<open>checkpoint\<close> can change: the graph, the snapshots, the selector.\<close>

record 'r session =
  graph :: DependencyGraph
  snapshots :: vs_store
  selector :: "'r Selector"

text \<open>The arguments \<^verbatim>\<open>checkpoint\<close> only reads.\<close>

record checkpoint_args =
  user_ns :: "string \<rightharpoonup> pyobj"
  fingerprint_dict :: "string \<rightharpoonup> fingerprint"
  udfs :: "string set"
  filename :: string
  write_log_location :: "string option"
  notebook_name :: "string option"
  optimizer_name :: "string option"
  elastic_notebook :: bool

text \<open>The arguments of \<^verbatim>\<open>migrate\<close>, in the order of the call.\<close>

record 'r migrate_args =
  m_graph :: DependencyGraph
  m_user_ns :: "string \<rightharpoonup> pyobj"
  m_vss_to_migrate :: "vs_ref set"
  m_vss_to_recompute :: "vs_ref list"
  m_ces_to_recompute :: "ce_ref set"
  m_udfs :: "string set"
  m_recomputation_ces :: 'r
  m_overlapping_vss :: "(vs_ref \<times> vs_ref) list"
  m_filename :: string

text \<open>
  The collaborators, none of which is part of the file. Each is a function of what it is
  handed; it either raises or returns. \<^verbatim>\<open>select_vss\<close> may update the selector it is
  called on. \<^verbatim>\<open>migrate\<close> returns nothing the caller looks at.
  Modelled from the spec: \<^verbatim>\<open>profile_variable_size\<close> returns a byte count (section 6,
  \<^verbatim>\<open>measure_size(value) -> bytes\<close>) and terminates.
\<close>

record 'r externals =
  profile_variable_size :: "pyobj \<Rightarrow> nat"
  select_vss :: "'r session \<Rightarrow> string option \<Rightarrow> string option \<Rightarrow> string option
                   \<Rightarrow> error + ('r Selector \<times> vs_ref set \<times> ce_ref set)"
  update_migration_lists :: "vs_ref set \<Rightarrow> vs_ref list \<Rightarrow> error option"
  migrate :: "vs_store \<Rightarrow> 'r migrate_args \<Rightarrow> error option"

datatype 'r call =
    Call_select_vss "'r Selector" "string option" "string option" "string option"
  | Call_update_migration_lists "vs_ref set" "vs_ref list"
  | Call_migrate "'r migrate_args"

record 'r run =
  final :: "'r session"
  printed :: "string list"
  trace :: "'r call list"
  result :: "error + bool"

subsection \<open>Python sets\<close>

text \<open>
  \<^verbatim>\<open>active_vss\<close> is a Python set. The model keeps its elements in a list without
  repetition and iterates in the order of insertion; Python fixes no order. The order
  shows only in the order of the warnings, in the order of \<^verbatim>\<open>overlapping_vss\<close> and in
  which missing name a \<^verbatim>\<open>KeyError\<close> reports; the theorems below speak of elements.
\<close>

definition pyset_add :: "'a \<Rightarrow> 'a list \<Rightarrow> 'a list" where
  "pyset_add x s = (if x \<in> set s then s else s @ [x])"

definition pyset_diff :: "'a list \<Rightarrow> 'a set \<Rightarrow> 'a list" where
  "pyset_diff s t = filter (\<lambda>x. x \<notin> t) s"

subsection \<open>The active snapshots (lines 44 to 51)\<close>

fun collect_active_vss ::
  "vs_store \<Rightarrow> (string \<times> vs_ref list) list \<Rightarrow> vs_ref list \<Rightarrow> error + vs_ref list" where
  "collect_active_vss h [] acc = Inr acc"
| "collect_active_vss h ((k, vs_list) # rest) acc =
     (if vs_list = [] then Inl IndexError
      else if \<not> deleted (h (last vs_list))
        then collect_active_vss h rest (pyset_add (last vs_list) acc)
        else collect_active_vss h rest acc)"

subsection \<open>The profiling loop (lines 54 to 71)\<close>

definition warning :: "string \<Rightarrow> string" where
  "warning n = ''Warning: Variable '' @ [CHR 0x27] @ n @ [CHR 0x27] @ '' not found in fingerprint_dict''"

definition blacklisted :: "string option \<Rightarrow> bool" where
  "blacklisted attr_str =
     (case attr_str of
        None \<Rightarrow> False
      | Some s \<Rightarrow> s \<noteq> [] \<and> (sublist ''dataprep.eda'' s \<or> sublist ''bokeh'' s))"

fun profile_sizes ::
  "(pyobj \<Rightarrow> nat) \<Rightarrow> (string \<rightharpoonup> pyobj) \<Rightarrow> (string \<rightharpoonup> fingerprint) \<Rightarrow> vs_ref list
     \<Rightarrow> vs_store \<times> string list \<Rightarrow> (vs_store \<times> string list) \<times> error option" where
  "profile_sizes pvs ns fp [] (h, out) = ((h, out), None)"
| "profile_sizes pvs ns fp (r # rs) (h, out) =
     (case fp (name (h r)) of
        None \<Rightarrow> profile_sizes pvs ns fp rs (h, out @ [warning (name (h r))])
      | Some entry \<Rightarrow>
          (case ns (name (h r)) of
             None \<Rightarrow> ((h, out), Some (KeyError (name (h r))))
           | Some obj \<Rightarrow>
               if item2 entry = UnserializableObj
                 then profile_sizes pvs ns fp rs (h(r := (h r)\<lparr>size_vs := Np_inf\<rparr>), out)
               else if blacklisted (module_attr obj)
                 then profile_sizes pvs ns fp rs (h(r := (h r)\<lparr>size_vs := Np_inf\<rparr>), out)
               else profile_sizes pvs ns fp rs
                      (h(r := (h r)\<lparr>size_vs := Bytes (pvs obj)\<rparr>), out)))"

subsection \<open>The overlapping pairs (lines 75 to 88)\<close>

fun overlap_inner ::
  "vs_store \<Rightarrow> (string \<rightharpoonup> fingerprint) \<Rightarrow> vs_ref \<Rightarrow> vs_ref list
     \<Rightarrow> (vs_ref \<times> vs_ref) list \<Rightarrow> (vs_ref \<times> vs_ref) list" where
  "overlap_inner h fp r1 [] acc = acc"
| "overlap_inner h fp r1 (r2 # rs) acc =
     (if r1 \<noteq> r2 then
        (case fp (name (h r1)) of
           None \<Rightarrow> overlap_inner h fp r1 rs acc
         | Some e1 \<Rightarrow>
             (case fp (name (h r2)) of
                None \<Rightarrow> overlap_inner h fp r1 rs acc
              | Some e2 \<Rightarrow>
                  if item1 e1 \<inter> item1 e2 \<noteq> {}
                    then overlap_inner h fp r1 rs (acc @ [(r1, r2)])
                    else overlap_inner h fp r1 rs acc))
      else overlap_inner h fp r1 rs acc)"

text \<open>
  The condition of lines 80 to 87 on a pair of snapshots, read off the table alone: both
  names have an entry and the region sets of the two entries intersect.
\<close>

definition shares_storage ::
  "vs_store \<Rightarrow> (string \<rightharpoonup> fingerprint) \<Rightarrow> vs_ref \<Rightarrow> vs_ref \<Rightarrow> bool" where
  "shares_storage h fp r1 r2 =
     (case fp (name (h r1)) of
        None \<Rightarrow> False
      | Some e1 \<Rightarrow>
          (case fp (name (h r2)) of
             None \<Rightarrow> False
           | Some e2 \<Rightarrow> item1 e1 \<inter> item1 e2 \<noteq> {}))"

fun overlap_outer ::
  "vs_store \<Rightarrow> (string \<rightharpoonup> fingerprint) \<Rightarrow> vs_ref list \<Rightarrow> vs_ref list
     \<Rightarrow> (vs_ref \<times> vs_ref) list \<Rightarrow> (vs_ref \<times> vs_ref) list" where
  "overlap_outer h fp [] act acc = acc"
| "overlap_outer h fp (r1 # rs) act acc =
     overlap_outer h fp rs act (overlap_inner h fp r1 act acc)"

definition find_overlapping_vss ::
  "vs_store \<Rightarrow> (string \<rightharpoonup> fingerprint) \<Rightarrow> vs_ref list \<Rightarrow> (vs_ref \<times> vs_ref) list" where
  "find_overlapping_vss h fp act = overlap_outer h fp act act []"

subsection \<open>The whole operation\<close>

text \<open>Lines 193 to 203: the arguments the writer is called with. The selector's
  attributes are read at the time of the call.\<close>

definition migrate_call ::
  "checkpoint_args \<Rightarrow> 'r session \<Rightarrow> vs_ref set \<Rightarrow> vs_ref list \<Rightarrow> ce_ref set
     \<Rightarrow> 'r migrate_args" where
  "migrate_call a s vss_to_migrate vss_to_recompute ces_to_recompute =
     \<lparr>m_graph = graph s, m_user_ns = user_ns a,
      m_vss_to_migrate = vss_to_migrate,
      m_vss_to_recompute = vss_to_recompute,
      m_ces_to_recompute = ces_to_recompute,
      m_udfs = udfs a,
      m_recomputation_ces = recomputation_ces (selector s),
      m_overlapping_vss = overlapping_vss (selector s),
      m_filename = filename a\<rparr>"

text \<open>Lines 186 to 222: the notebook's lists are updated when a notebook is given, then
  the writer is called; \<^verbatim>\<open>migrate_success\<close> is \<^verbatim>\<open>True\<close> from line 192 on and
  the value of \<^verbatim>\<open>migrate(...)\<close> is dropped.\<close>

definition write_stage ::
  "'r externals \<Rightarrow> checkpoint_args \<Rightarrow> 'r session \<Rightarrow> string list \<Rightarrow> 'r call list
     \<Rightarrow> vs_ref set \<Rightarrow> vs_ref list \<Rightarrow> ce_ref set \<Rightarrow> 'r run" where
  "write_stage ext a s out tr vss_to_migrate vss_to_recompute ces_to_recompute =
     (let upd = (if elastic_notebook a
                 then update_migration_lists ext vss_to_migrate vss_to_recompute else None);
          tr1 = (if elastic_notebook a
                 then tr @ [Call_update_migration_lists vss_to_migrate vss_to_recompute] else tr)
      in case upd of
           Some e \<Rightarrow> \<lparr>final = s, printed = out, trace = tr1, result = Inl e\<rparr>
         | None \<Rightarrow>
             (let m = migrate_call a s vss_to_migrate vss_to_recompute ces_to_recompute
              in case migrate ext (snapshots s) m of
                   Some e \<Rightarrow> \<lparr>final = s, printed = out, trace = tr1 @ [Call_migrate m],
                               result = Inl e\<rparr>
                 | None \<Rightarrow> \<lparr>final = s, printed = out, trace = tr1 @ [Call_migrate m],
                             result = Inr True\<rparr>))"

text \<open>Lines 124 to 126: the selector is handed the graph, the active set and the pairs.\<close>

definition init_selector ::
  "'r session \<Rightarrow> vs_ref list \<Rightarrow> (vs_ref \<times> vs_ref) list \<Rightarrow> 'r session" where
  "init_selector s act ovl =
     s\<lparr>selector := (selector s)\<lparr>dependency_graph := Some (graph s), active_vss := act,
                                  overlapping_vss := ovl\<rparr>\<rparr>"

text \<open>Lines 131 to 141: the selector is asked for the partition; what is not migrated
  is recomputed.\<close>

definition optimize_stage ::
  "'r externals \<Rightarrow> checkpoint_args \<Rightarrow> 'r session \<Rightarrow> string list \<Rightarrow> vs_ref list
     \<Rightarrow> (vs_ref \<times> vs_ref) list \<Rightarrow> 'r run" where
  "optimize_stage ext a s out act ovl =
     (let s1 = init_selector s act ovl;
          c = Call_select_vss (selector s1) (write_log_location a) (notebook_name a)
                (optimizer_name a)
      in case select_vss ext s1 (write_log_location a) (notebook_name a) (optimizer_name a) of
           Inl e \<Rightarrow> \<lparr>final = s1, printed = out, trace = [c], result = Inl e\<rparr>
         | Inr (sel', vss_to_migrate, ces_to_recompute) \<Rightarrow>
             write_stage ext a (s1\<lparr>selector := sel'\<rparr>) out [c]
               vss_to_migrate (pyset_diff act vss_to_migrate) ces_to_recompute)"

definition checkpoint :: "'r externals \<Rightarrow> checkpoint_args \<Rightarrow> 'r session \<Rightarrow> 'r run" where
  "checkpoint ext a s =
     (case collect_active_vss (snapshots s) (variable_snapshots (graph s)) [] of
        Inl e \<Rightarrow> \<lparr>final = s, printed = [], trace = [], result = Inl e\<rparr>
      | Inr act \<Rightarrow>
          (case profile_sizes (profile_variable_size ext) (user_ns a) (fingerprint_dict a)
                  act (snapshots s, []) of
             ((h, out), Some e) \<Rightarrow>
               \<lparr>final = s\<lparr>snapshots := h\<rparr>, printed = out, trace = [], result = Inl e\<rparr>
           | ((h, out), None) \<Rightarrow>
               optimize_stage ext a (s\<lparr>snapshots := h\<rparr>) out act
                 (find_overlapping_vss h (fingerprint_dict a) act)))"

subsection \<open>The active set as the specification words it\<close>

text \<open>
  The specification's \<^verbatim>\<open>active_snapshots()\<close>: for every tracked name, the most recent
  snapshot not marked deleted, that is the last of the versions that are not deleted, and
  none when every version is deleted. It is compared with \<open>collect_active_vss\<close> below.
\<close>

definition most_recent_undeleted :: "vs_store \<Rightarrow> vs_ref list \<Rightarrow> vs_ref option" where
  "most_recent_undeleted h vs_list =
     (case filter (\<lambda>r. \<not> deleted (h r)) vs_list of
        [] \<Rightarrow> None
      | r # rs \<Rightarrow> Some (last (r # rs)))"

definition active_snapshots_spec :: "vs_store \<Rightarrow> (string \<times> vs_ref list) list \<Rightarrow> vs_ref list" where
  "active_snapshots_spec h vss = List.map_filter (\<lambda>(k, vs_list). most_recent_undeleted h vs_list) vss"

subsection \<open>A session to run the operation on\<close>

text \<open>
  A notebook with the variables \<^verbatim>\<open>a\<close>, \<^verbatim>\<open>b\<close>, \<^verbatim>\<open>c\<close>, \<^verbatim>\<open>x\<close> and \<^verbatim>\<open>d\<close>:
  \<^verbatim>\<open>a\<close> and \<^verbatim>\<open>b\<close> share the storage region 101, \<^verbatim>\<open>c\<close> has been deleted (its
  second version carries the mark), \<^verbatim>\<open>x\<close> has no fingerprint, and \<^verbatim>\<open>d\<close> is a
  \<^verbatim>\<open>bokeh\<close> object. The selector of the example migrates every active snapshot of
  finite size; the writer succeeds.
\<close>

definition demo_vs :: "string \<Rightarrow> nat \<Rightarrow> bool \<Rightarrow> VariableSnapshot" where
  "demo_vs n v d = \<lparr>name = n, version = v, size_vs = Bytes 7, deleted = d, producing_edge = None\<rparr>"

definition demo_store :: vs_store where
  "demo_store =
     (\<lambda>r. demo_vs ''a'' 0 False)
       (1 := demo_vs ''b'' 0 False, 2 := demo_vs ''c'' 0 False, 3 := demo_vs ''c'' 1 True,
        4 := demo_vs ''x'' 0 False, 5 := demo_vs ''d'' 0 False)"

definition demo_graph :: DependencyGraph where
  "demo_graph =
     \<lparr>variable_snapshots =
        [(''a'', [0]), (''b'', [1]), (''c'', [2, 3]), (''x'', [4]), (''d'', [5])],
      cell_executions = [0, 1, 2]\<rparr>"

definition demo_session :: "nat list session" where
  "demo_session =
     \<lparr>graph = demo_graph, snapshots = demo_store,
      selector = \<lparr>dependency_graph = None, active_vss = [], overlapping_vss = [],
                  recomputation_ces = []\<rparr>\<rparr>"

definition demo_user_ns :: "string \<rightharpoonup> pyobj" where
  "demo_user_ns =
     [''a'' \<mapsto> \<lparr>module_attr = Some ''numpy'', contents = [1, 2, 3]\<rparr>,
      ''b'' \<mapsto> \<lparr>module_attr = None, contents = [4]\<rparr>,
      ''x'' \<mapsto> \<lparr>module_attr = None, contents = [5, 6]\<rparr>,
      ''d'' \<mapsto> \<lparr>module_attr = Some ''bokeh.models'', contents = []\<rparr>]"

definition demo_fingerprints :: "string \<rightharpoonup> fingerprint" where
  "demo_fingerprints =
     [''a'' \<mapsto> (10, {100, 101}, Hashed 1),
      ''b'' \<mapsto> (11, {101}, Hashed 2),
      ''d'' \<mapsto> (12, {300}, Hashed 3)]"

definition demo_args :: checkpoint_args where
  "demo_args =
     \<lparr>user_ns = demo_user_ns, fingerprint_dict = demo_fingerprints, udfs = {},
      filename = ''notebook.pickle'', write_log_location = None, notebook_name = None,
      optimizer_name = None, elastic_notebook = True\<rparr>"

definition demo_select_vss ::
  "nat list session \<Rightarrow> string option \<Rightarrow> string option \<Rightarrow> string option
     \<Rightarrow> error + (nat list Selector \<times> vs_ref set \<times> ce_ref set)" where
  "demo_select_vss s wl nn opt =
     Inr ((selector s)\<lparr>recomputation_ces := [1]\<rparr>,
          set (filter (\<lambda>r. size_vs (snapshots s r) \<noteq> Np_inf) (active_vss (selector s))),
          {1})"

definition demo_ext :: "nat list externals" where
  "demo_ext =
     \<lparr>profile_variable_size = (\<lambda>obj. length (contents obj)),
      select_vss = demo_select_vss,
      update_migration_lists = (\<lambda>mig rc. None),
      migrate = (\<lambda>h m. None)\<rparr>"

text \<open>What the writer is expected to be called with in this run.\<close>

definition demo_migrate_args :: "nat list migrate_args" where
  "demo_migrate_args =
     \<lparr>m_graph = demo_graph, m_user_ns = demo_user_ns,
      m_vss_to_migrate = {0, 1, 4}, m_vss_to_recompute = [5],
      m_ces_to_recompute = {1}, m_udfs = {}, m_recomputation_ces = [1],
      m_overlapping_vss = [(0, 1), (1, 0)], m_filename = ''notebook.pickle''\<rparr>"


definition demo_args_without_a :: checkpoint_args where
  "demo_args_without_a = demo_args\<lparr>user_ns := demo_user_ns(''a'' := None)\<rparr>"

section \<open>Properties of the loops\<close>

subsection \<open>Python sets and the active snapshots\<close>

lemma set_pyset_add: "set (pyset_add x s) = insert x (set s)"
  by (auto simp: pyset_add_def)

lemma distinct_pyset_add: "distinct s \<Longrightarrow> distinct (pyset_add x s)"
  by (simp add: pyset_add_def)

lemma set_pyset_diff: "set (pyset_diff s t) = set s - t"
  by (auto simp: pyset_diff_def)

lemma collect_active_vss_Inr:
  "\<forall>(k, l) \<in> set vss. l \<noteq> [] \<Longrightarrow>
   \<exists>act. collect_active_vss h vss acc = Inr act \<and>
     set act = set acc \<union> {last l |k l. (k, l) \<in> set vss \<and> \<not> deleted (h (last l))} \<and>
     (distinct acc \<longrightarrow> distinct act)"
proof (induction vss arbitrary: acc)
  case Nil
  then show ?case by simp
next
  case (Cons p vss)
  obtain k l where p: "p = (k, l)" by (cases p)
  from Cons.prems p have l: "l \<noteq> []" and rest: "\<forall>(k, l) \<in> set vss. l \<noteq> []" by auto
  show ?case
  proof (cases "deleted (h (last l))")
    case True
    from Cons.IH [OF rest, of acc] obtain act where
      "collect_active_vss h vss acc = Inr act"
      "set act = set acc \<union> {last l |k l. (k, l) \<in> set vss \<and> \<not> deleted (h (last l))}"
      "distinct acc \<longrightarrow> distinct act" by blast
    with True l p show ?thesis by auto
  next
    case False
    from Cons.IH [OF rest, of "pyset_add (last l) acc"] obtain act where
      "collect_active_vss h vss (pyset_add (last l) acc) = Inr act"
      "set act = set (pyset_add (last l) acc) \<union> {last l |k l. (k, l) \<in> set vss \<and> \<not> deleted (h (last l))}"
      "distinct (pyset_add (last l) acc) \<longrightarrow> distinct act" by blast
    with False l p show ?thesis by (auto simp: set_pyset_add distinct_pyset_add)
  qed
qed

lemma collect_active_vss_Inl:
  "collect_active_vss h vss acc = Inl e \<Longrightarrow> e = IndexError \<and> (\<exists>k. (k, []) \<in> set vss)"
  by (induction h vss acc rule: collect_active_vss.induct) (auto split: if_splits)

lemma collect_active_vss_set:
  "collect_active_vss h vss acc = Inr act \<Longrightarrow>
     set act = set acc \<union> {last l |k l. (k, l) \<in> set vss \<and> \<not> deleted (h (last l))} \<and>
     (distinct acc \<longrightarrow> distinct act)"
proof (induction h vss acc rule: collect_active_vss.induct)
  case (1 h acc)
  then show ?case by simp
next
  case (2 h k vs_list rest acc)
  then show ?case
    by (auto simp: set_pyset_add distinct_pyset_add split: if_splits)
qed

subsection \<open>The profiling loop\<close>

lemma profile_sizes_Cons:
  "profile_sizes pvs ns fp (x # rs) (h, out) =
     (case fp (name (h x)) of
        None \<Rightarrow> profile_sizes pvs ns fp rs (h, out @ [warning (name (h x))])
      | Some entry \<Rightarrow>
          (case ns (name (h x)) of
             None \<Rightarrow> ((h, out), Some (KeyError (name (h x))))
           | Some obj \<Rightarrow>
               profile_sizes pvs ns fp rs
                 (h(x := (h x)\<lparr>size_vs :=
                      if item2 entry = UnserializableObj \<or> blacklisted (module_attr obj)
                      then Np_inf else Bytes (pvs obj)\<rparr>), out)))"
  by (simp split: option.splits)

lemma profile_sizes_frame:
  "profile_sizes pvs ns fp rs (h, out) = ((h', out'), err) \<Longrightarrow>
     h' r = (h r)\<lparr>size_vs := size_vs (h' r)\<rparr>"
proof (induction rs arbitrary: h out)
  case Nil
  then show ?case by simp
next
  case (Cons x rs)
  show ?case
  proof (cases "fp (name (h x))")
    case None
    with Cons.prems have "profile_sizes pvs ns fp rs (h, out @ [warning (name (h x))]) = ((h', out'), err)"
      by (simp only: profile_sizes_Cons option.case)
    from Cons.IH [OF this] show ?thesis .
  next
    case (Some entry)
    show ?thesis
    proof (cases "ns (name (h x))")
      case None
      with Some Cons.prems show ?thesis by (simp only: profile_sizes_Cons option.case) simp
    next
      case (Some obj)
      with Cons.prems \<open>fp (name (h x)) = Some entry\<close>
      obtain sz where "profile_sizes pvs ns fp rs (h(x := (h x)\<lparr>size_vs := sz\<rparr>), out) = ((h', out'), err)"
        by (simp only: profile_sizes_Cons option.case)
      from Cons.IH [OF this] have "h' r = ((h(x := (h x)\<lparr>size_vs := sz\<rparr>)) r)\<lparr>size_vs := size_vs (h' r)\<rparr>" .
      then show ?thesis by (cases "r = x") simp_all
    qed
  qed
qed



lemma profile_sizes_size:
  "profile_sizes pvs ns fp rs (h, out) = ((h', out'), None) \<Longrightarrow>
   fp (name (h r)) = Some entry \<Longrightarrow> ns (name (h r)) = Some obj \<Longrightarrow>
   r \<in> set rs \<or> size_vs (h r) = (if item2 entry = UnserializableObj \<or> blacklisted (module_attr obj)
                                    then Np_inf else Bytes (pvs obj)) \<Longrightarrow>
   size_vs (h' r) = (if item2 entry = UnserializableObj \<or> blacklisted (module_attr obj)
                     then Np_inf else Bytes (pvs obj))"
proof (induction rs arbitrary: h out)
  case Nil
  then show ?case by simp
next
  case (Cons x rs)
  show ?case
  proof (cases "fp (name (h x))")
    case None
    with Cons.prems(2) have neq: "r \<noteq> x" by auto
    from None Cons.prems(1) have "profile_sizes pvs ns fp rs (h, out @ [warning (name (h x))]) = ((h', out'), None)"
      by (simp only: profile_sizes_Cons option.case)
    from Cons.IH [OF this Cons.prems(2,3)] Cons.prems(4) neq show ?thesis by simp
  next
    case (Some ex)
    show ?thesis
    proof (cases "ns (name (h x))")
      case None
      with Some Cons.prems(1) show ?thesis by (simp only: profile_sizes_Cons option.case) simp
    next
      case (Some ox)
      let ?h1 = "h(x := (h x)\<lparr>size_vs :=
                      if item2 ex = UnserializableObj \<or> blacklisted (module_attr ox)
                      then Np_inf else Bytes (pvs ox)\<rparr>)"
      from Cons.prems(1) \<open>fp (name (h x)) = Some ex\<close> Some
      have run: "profile_sizes pvs ns fp rs (?h1, out) = ((h', out'), None)"
        by (simp only: profile_sizes_Cons option.case)
      have nm: "name (?h1 r) = name (h r)" by simp
      have "r \<in> set rs \<or> size_vs (?h1 r) = (if item2 entry = UnserializableObj \<or> blacklisted (module_attr obj)
                                    then Np_inf else Bytes (pvs obj))"
      proof (cases "r = x")
        case True
        with Cons.prems(2,3) \<open>fp (name (h x)) = Some ex\<close> Some have "ex = entry" "ox = obj" by auto
        with True show ?thesis by simp
      next
        case False
        with Cons.prems(4) show ?thesis by auto
      qed
      from Cons.IH [OF run _ _ this] Cons.prems(2,3) nm show ?thesis by simp
    qed
  qed
qed

lemma profile_sizes_error:
  "profile_sizes pvs ns fp rs (h, out) = ((h', out'), Some e) \<Longrightarrow>
     \<exists>r \<in> set rs. e = KeyError (name (h r)) \<and> fp (name (h r)) \<noteq> None \<and> ns (name (h r)) = None"
proof (induction rs arbitrary: h out)
  case Nil
  then show ?case by simp
next
  case (Cons x rs)
  show ?case
  proof (cases "fp (name (h x))")
    case None
    with Cons.prems have "profile_sizes pvs ns fp rs (h, out @ [warning (name (h x))]) = ((h', out'), Some e)"
      by (simp only: profile_sizes_Cons option.case)
    from Cons.IH [OF this] show ?thesis by auto
  next
    case (Some entry)
    show ?thesis
    proof (cases "ns (name (h x))")
      case None
      with Some Cons.prems have "e = KeyError (name (h x))"
        by (simp only: profile_sizes_Cons option.case) auto
      with None Some show ?thesis by (intro bexI [of _ x]) simp_all
    next
      case (Some obj)
      with Cons.prems \<open>fp (name (h x)) = Some entry\<close>
      obtain sz where "profile_sizes pvs ns fp rs (h(x := (h x)\<lparr>size_vs := sz\<rparr>), out) = ((h', out'), Some e)"
        by (simp only: profile_sizes_Cons option.case)
      from Cons.IH [OF this]
      have "\<exists>r \<in> set rs. e = KeyError (name ((h(x := (h x)\<lparr>size_vs := sz\<rparr>)) r)) \<and>
              fp (name ((h(x := (h x)\<lparr>size_vs := sz\<rparr>)) r)) \<noteq> None \<and>
              ns (name ((h(x := (h x)\<lparr>size_vs := sz\<rparr>)) r)) = None" .
      moreover have "\<And>r. name ((h(x := (h x)\<lparr>size_vs := sz\<rparr>)) r) = name (h r)" by simp
      ultimately have "\<exists>r \<in> set rs. e = KeyError (name (h r)) \<and> fp (name (h r)) \<noteq> None \<and>
              ns (name (h r)) = None"
        by (simp only:)
      then show ?thesis by auto
    qed
  qed
qed

lemma profile_sizes_present:
  "profile_sizes pvs ns fp rs (h, out) = ((h', out'), None) \<Longrightarrow> r \<in> set rs \<Longrightarrow>
     fp (name (h r)) \<noteq> None \<Longrightarrow> ns (name (h r)) \<noteq> None"
proof (induction rs arbitrary: h out)
  case Nil
  then show ?case by simp
next
  case (Cons x rs)
  show ?case
  proof (cases "fp (name (h x))")
    case None
    with Cons.prems have "r \<in> set rs" by auto
    moreover from None Cons.prems(1)
    have "profile_sizes pvs ns fp rs (h, out @ [warning (name (h x))]) = ((h', out'), None)"
      by (simp only: profile_sizes_Cons option.case)
    ultimately show ?thesis using Cons.IH Cons.prems(3) by blast
  next
    case (Some entry)
    show ?thesis
    proof (cases "ns (name (h x))")
      case None
      with Some Cons.prems(1) show ?thesis by (simp only: profile_sizes_Cons option.case) simp
    next
      case (Some obj)
      show ?thesis
      proof (cases "r = x")
        case True
        with Some show ?thesis by simp
      next
        case False
        with Cons.prems(2) have mem: "r \<in> set rs" by simp
        from Cons.prems(1) \<open>fp (name (h x)) = Some entry\<close> Some
        obtain sz where run: "profile_sizes pvs ns fp rs (h(x := (h x)\<lparr>size_vs := sz\<rparr>), out) = ((h', out'), None)"
          by (simp only: profile_sizes_Cons option.case)
        have "name ((h(x := (h x)\<lparr>size_vs := sz\<rparr>)) r) = name (h r)" by simp
        with Cons.IH [OF run mem] Cons.prems(3) show ?thesis by simp
      qed
    qed
  qed
qed



subsection \<open>The overlapping pairs\<close>

lemma overlap_inner_eq:
  "overlap_inner h fp r1 rs acc =
     acc @ map (Pair r1) (filter (\<lambda>r2. r1 \<noteq> r2 \<and> shares_storage h fp r1 r2) rs)"
proof (induction rs arbitrary: acc)
  case Nil
  show ?case by simp
next
  case (Cons r2 rs)
  have "overlap_inner h fp r1 (r2 # rs) acc =
          overlap_inner h fp r1 rs
            (if r1 \<noteq> r2 \<and> shares_storage h fp r1 r2 then acc @ [(r1, r2)] else acc)"
    by (simp add: shares_storage_def split: option.splits)
  then show ?case by (simp add: Cons.IH)
qed

lemma overlap_outer_eq:
  "overlap_outer h fp rs act acc =
     acc @ concat (map (\<lambda>r1. map (Pair r1)
                    (filter (\<lambda>r2. r1 \<noteq> r2 \<and> shares_storage h fp r1 r2) act)) rs)"
  by (induction rs arbitrary: acc) (simp_all add: overlap_inner_eq)

lemma find_overlapping_vss_eq:
  "find_overlapping_vss h fp act =
     concat (map (\<lambda>r1. map (Pair r1)
               (filter (\<lambda>r2. r1 \<noteq> r2 \<and> shares_storage h fp r1 r2) act)) act)"
  by (simp add: find_overlapping_vss_def overlap_outer_eq)

lemma set_find_overlapping_vss:
  "set (find_overlapping_vss h fp act) =
     {(r1, r2). r1 \<in> set act \<and> r2 \<in> set act \<and> r1 \<noteq> r2 \<and> shares_storage h fp r1 r2}"
  by (auto simp: find_overlapping_vss_eq)

lemma distinct_pairs:
  "distinct rs \<Longrightarrow> distinct act \<Longrightarrow>
     distinct (concat (map (\<lambda>r1. map (Pair r1) (filter (P r1) act)) rs))"
  by (induction rs) (auto simp: distinct_map inj_on_def)

lemma distinct_find_overlapping_vss:
  "distinct act \<Longrightarrow> distinct (find_overlapping_vss h fp act)"
  by (simp add: find_overlapping_vss_eq distinct_pairs)

lemma shares_storage_sym: "shares_storage h fp r1 r2 = shares_storage h fp r2 r1"
  by (auto simp: shares_storage_def split: option.splits)

subsection \<open>The stages of the operation\<close>

lemma write_stage_final [simp]:
  "final (write_stage ext a s out tr mig rc ces) = s"
  "printed (write_stage ext a s out tr mig rc ces) = out"
  by (simp_all add: write_stage_def Let_def split: option.splits)

lemma write_stage_trace:
  "trace (write_stage ext a s out tr mig rc ces) =
     tr @ (if elastic_notebook a then [Call_update_migration_lists mig rc] else [])
        @ (if elastic_notebook a \<and> update_migration_lists ext mig rc \<noteq> None then []
           else [Call_migrate (migrate_call a s mig rc ces)])"
  by (simp add: write_stage_def Let_def split: option.splits)

lemma write_stage_result:
  "result (write_stage ext a s out tr mig rc ces) =
     (case (if elastic_notebook a then update_migration_lists ext mig rc else None) of
        Some e \<Rightarrow> Inl e
      | None \<Rightarrow>
          (case migrate ext (snapshots s) (migrate_call a s mig rc ces) of
             Some e \<Rightarrow> Inl e
           | None \<Rightarrow> Inr True))"
  by (simp add: write_stage_def Let_def split: option.splits)


lemma optimize_stage_return:
  "select_vss ext (init_selector s act ovl) (write_log_location a) (notebook_name a)
      (optimizer_name a) = Inr (sel', mig, ces) \<Longrightarrow>
   optimize_stage ext a s out act ovl =
     write_stage ext a ((init_selector s act ovl)\<lparr>selector := sel'\<rparr>) out
       [Call_select_vss (selector (init_selector s act ovl)) (write_log_location a)
          (notebook_name a) (optimizer_name a)]
       mig (pyset_diff act mig) ces"
  by (simp add: optimize_stage_def Let_def)

lemma init_selector_simps [simp]:
  "graph (init_selector s act ovl) = graph s"
  "snapshots (init_selector s act ovl) = snapshots s"
  "active_vss (selector (init_selector s act ovl)) = act"
  "overlapping_vss (selector (init_selector s act ovl)) = ovl"
  "dependency_graph (selector (init_selector s act ovl)) = Some (graph s)"
  "recomputation_ces (selector (init_selector s act ovl)) = recomputation_ces (selector s)"
  by (simp_all add: init_selector_def)

lemma optimize_stage_final [simp]:
  "graph (final (optimize_stage ext a s out act ovl)) = graph s"
  "snapshots (final (optimize_stage ext a s out act ovl)) = snapshots s"
  "printed (optimize_stage ext a s out act ovl) = out"
  by (simp_all add: optimize_stage_def Let_def split: sum.splits)

lemma checkpoint_index_error:
  "collect_active_vss (snapshots s) (variable_snapshots (graph s)) [] = Inl e \<Longrightarrow>
   checkpoint ext a s = \<lparr>final = s, printed = [], trace = [], result = Inl e\<rparr>"
  by (simp add: checkpoint_def)

lemma checkpoint_key_error:
  "collect_active_vss (snapshots s) (variable_snapshots (graph s)) [] = Inr act \<Longrightarrow>
   profile_sizes (profile_variable_size ext) (user_ns a) (fingerprint_dict a) act
     (snapshots s, []) = ((h, out), Some e) \<Longrightarrow>
   checkpoint ext a s = \<lparr>final = s\<lparr>snapshots := h\<rparr>, printed = out, trace = [], result = Inl e\<rparr>"
  by (simp add: checkpoint_def)

lemma checkpoint_profiled:
  "collect_active_vss (snapshots s) (variable_snapshots (graph s)) [] = Inr act \<Longrightarrow>
   profile_sizes (profile_variable_size ext) (user_ns a) (fingerprint_dict a) act
     (snapshots s, []) = ((h, out), None) \<Longrightarrow>
   checkpoint ext a s =
     optimize_stage ext a (s\<lparr>snapshots := h\<rparr>) out act
       (find_overlapping_vss h (fingerprint_dict a) act)"
  by (simp add: checkpoint_def)

lemma checkpoint_final:
  assumes "collect_active_vss (snapshots s) (variable_snapshots (graph s)) [] = Inr act"
      and "profile_sizes (profile_variable_size ext) (user_ns a) (fingerprint_dict a) act
             (snapshots s, []) = ((h, out), err)"
  shows "graph (final (checkpoint ext a s)) = graph s"
    and "snapshots (final (checkpoint ext a s)) = h"
    and "printed (checkpoint ext a s) = out"
proof -
  show "graph (final (checkpoint ext a s)) = graph s"
    using assms by (cases err) (simp_all add: checkpoint_key_error checkpoint_profiled)
  show "snapshots (final (checkpoint ext a s)) = h"
    using assms by (cases err) (simp_all add: checkpoint_key_error checkpoint_profiled)
  show "printed (checkpoint ext a s) = out"
    using assms by (cases err) (simp_all add: checkpoint_key_error checkpoint_profiled)
qed

lemma optimize_stage_trace:
  "trace (optimize_stage ext a s out act ovl) =
     Call_select_vss (selector (init_selector s act ovl)) (write_log_location a)
       (notebook_name a) (optimizer_name a) #
     (case select_vss ext (init_selector s act ovl) (write_log_location a) (notebook_name a)
             (optimizer_name a) of
        Inl e \<Rightarrow> []
      | Inr (sel', mig, ces) \<Rightarrow>
          (if elastic_notebook a
           then [Call_update_migration_lists mig (pyset_diff act mig)] else []) @
          (if elastic_notebook a \<and> update_migration_lists ext mig (pyset_diff act mig) \<noteq> None
           then []
           else [Call_migrate (migrate_call a ((init_selector s act ovl)\<lparr>selector := sel'\<rparr>)
                   mig (pyset_diff act mig) ces)]))"
  by (simp add: optimize_stage_def Let_def write_stage_trace split: sum.splits)

lemma optimize_stage_migrate_call:
  assumes "Call_migrate m \<in> set (trace (optimize_stage ext a s out act ovl))"
  shows "\<exists>sel' mig ces.
           select_vss ext (init_selector s act ovl) (write_log_location a) (notebook_name a)
             (optimizer_name a) = Inr (sel', mig, ces) \<and>
           m = migrate_call a ((init_selector s act ovl)\<lparr>selector := sel'\<rparr>) mig
                 (pyset_diff act mig) ces \<and>
           result (optimize_stage ext a s out act ovl) =
             (case migrate ext (snapshots s) m of Some e \<Rightarrow> Inl e | None \<Rightarrow> Inr True)"
proof (cases "select_vss ext (init_selector s act ovl) (write_log_location a) (notebook_name a)
             (optimizer_name a)")
  case (Inl e)
  with assms show ?thesis by (simp add: optimize_stage_trace)
next
  case (Inr t)
  obtain sel' mig ces where t: "t = (sel', mig, ces)" by (cases t)
  from assms Inr t have m: "m = migrate_call a ((init_selector s act ovl)\<lparr>selector := sel'\<rparr>) mig
                 (pyset_diff act mig) ces"
    and upd: "\<not> (elastic_notebook a \<and> update_migration_lists ext mig (pyset_diff act mig) \<noteq> None)"
    by (auto simp add: optimize_stage_trace split: if_splits)
  from upd have "result (optimize_stage ext a s out act ovl) =
             (case migrate ext (snapshots s) m of Some e \<Rightarrow> Inl e | None \<Rightarrow> Inr True)"
    unfolding optimize_stage_return [OF Inr [unfolded t]] write_stage_result m
    by (auto split: option.splits)
  with Inr t m show ?thesis by blast
qed

lemma checkpoint_trace_cases:
  assumes "c \<in> set (trace (checkpoint ext a s))"
  obtains act h out where
    "collect_active_vss (snapshots s) (variable_snapshots (graph s)) [] = Inr act"
    "profile_sizes (profile_variable_size ext) (user_ns a) (fingerprint_dict a) act
       (snapshots s, []) = ((h, out), None)"
    "checkpoint ext a s =
       optimize_stage ext a (s\<lparr>snapshots := h\<rparr>) out act
         (find_overlapping_vss h (fingerprint_dict a) act)"
proof (cases "collect_active_vss (snapshots s) (variable_snapshots (graph s)) []")
  case (Inl e)
  with assms show ?thesis by (simp add: checkpoint_index_error)
next
  case (Inr act)
  obtain h out err where p: "profile_sizes (profile_variable_size ext) (user_ns a)
      (fingerprint_dict a) act (snapshots s, []) = ((h, out), err)"
    by (metis surj_pair)
  show ?thesis
  proof (cases err)
    case None
    with Inr p that show ?thesis by (simp add: checkpoint_profiled)
  next
    case (Some e)
    with Inr p assms show ?thesis by (simp add: checkpoint_key_error)
  qed
qed

subsection \<open>The example session\<close>

lemma demo_active:
  "collect_active_vss (snapshots demo_session) (variable_snapshots (graph demo_session)) [] = Inr [0, 1, 4, 5]"
  by (simp add: demo_session_def demo_graph_def demo_store_def demo_vs_def pyset_add_def)

lemma demo_profile:
  "\<exists>h. profile_sizes (profile_variable_size demo_ext) (user_ns demo_args) (fingerprint_dict demo_args)
      [0, 1, 4, 5] (snapshots demo_session, []) = ((h, [warning ''x'']), None) \<and>
    h 0 = (demo_vs ''a'' 0 False)\<lparr>size_vs := Bytes 3\<rparr> \<and>
    h 1 = (demo_vs ''b'' 0 False)\<lparr>size_vs := Bytes 1\<rparr> \<and>
    h 4 = demo_vs ''x'' 0 False \<and>
    h 5 = (demo_vs ''d'' 0 False)\<lparr>size_vs := Np_inf\<rparr>"
  by (simp add: demo_session_def demo_store_def demo_vs_def demo_ext_def demo_args_def
      demo_user_ns_def demo_fingerprints_def blacklisted_def sublist_code item2_def)

lemma demo_run:
  "\<exists>h sel. checkpoint demo_ext demo_args demo_session =
     \<lparr>final = \<lparr>graph = demo_graph, snapshots = h, selector = sel\<lparr>recomputation_ces := [1]\<rparr>\<rparr>,
      printed = [warning ''x''],
      trace = [Call_select_vss sel None None None,
               Call_update_migration_lists {0, 1, 4} [5],
               Call_migrate demo_migrate_args],
      result = Inr True\<rparr> \<and>
     sel = \<lparr>dependency_graph = Some demo_graph, active_vss = [0, 1, 4, 5],
            overlapping_vss = [(0, 1), (1, 0)], recomputation_ces = []\<rparr> \<and>
     h 0 = (demo_vs ''a'' 0 False)\<lparr>size_vs := Bytes 3\<rparr> \<and>
     h 1 = (demo_vs ''b'' 0 False)\<lparr>size_vs := Bytes 1\<rparr> \<and>
     h 4 = demo_vs ''x'' 0 False \<and>
     h 5 = (demo_vs ''d'' 0 False)\<lparr>size_vs := Np_inf\<rparr>"
proof -
  from demo_profile obtain h where
    p: "profile_sizes (profile_variable_size demo_ext) (user_ns demo_args) (fingerprint_dict demo_args)
      [0, 1, 4, 5] (snapshots demo_session, []) = ((h, [warning ''x'']), None)"
    and h: "h 0 = (demo_vs ''a'' 0 False)\<lparr>size_vs := Bytes 3\<rparr>"
      "h 1 = (demo_vs ''b'' 0 False)\<lparr>size_vs := Bytes 1\<rparr>"
      "h 4 = demo_vs ''x'' 0 False"
      "h 5 = (demo_vs ''d'' 0 False)\<lparr>size_vs := Np_inf\<rparr>"
    by blast
  from h(2) have h1: "h (Suc 0) = (demo_vs ''b'' 0 False)\<lparr>size_vs := Bytes 1\<rparr>" by simp
  have ovl: "find_overlapping_vss h demo_fingerprints [0, 1, 4, 5] = [(0, 1), (1, 0)]"
    by (simp add: find_overlapping_vss_eq shares_storage_def h demo_vs_def
        demo_fingerprints_def item1_def del: One_nat_def)
  show ?thesis
    unfolding checkpoint_profiled [OF demo_active p]
    by (rule exI [of _ h])
       (simp add: optimize_stage_def init_selector_def write_stage_def migrate_call_def Let_def
          demo_ext_def demo_select_vss_def demo_args_def ovl h h1 demo_vs_def pyset_diff_def
          demo_session_def demo_migrate_args_def del: One_nat_def set_filter)
qed

section \<open>The claims\<close>

text \<open>
  C1: whenever the set the selector returns is a subset of the active set, what the
  writer receives is a partition of the active set: the snapshots to migrate and the
  snapshots to recompute together are the active set, they are disjoint, and the
  snapshots to recompute are the active set minus the snapshots to migrate.
\<close>

theorem checkpoint_partition:
  assumes "collect_active_vss (snapshots s) (variable_snapshots (graph s)) [] = Inr act"
      and "Call_migrate m \<in> set (trace (checkpoint ext a s))"
      and "m_vss_to_migrate m \<subseteq> set act"
  shows "m_vss_to_migrate m \<union> set (m_vss_to_recompute m) = set act \<and>
         m_vss_to_migrate m \<inter> set (m_vss_to_recompute m) = {} \<and>
         set (m_vss_to_recompute m) = set act - m_vss_to_migrate m"
proof -
  from assms(2) obtain act' h out where
    act': "collect_active_vss (snapshots s) (variable_snapshots (graph s)) [] = Inr act'"
    and run: "checkpoint ext a s =
       optimize_stage ext a (s\<lparr>snapshots := h\<rparr>) out act'
         (find_overlapping_vss h (fingerprint_dict a) act')"
    by (rule checkpoint_trace_cases)
  from act' assms(1) have "act' = act" by simp
  with run assms(2) have "Call_migrate m \<in> set (trace (optimize_stage ext a (s\<lparr>snapshots := h\<rparr>) out act
         (find_overlapping_vss h (fingerprint_dict a) act)))" by simp
  from optimize_stage_migrate_call [OF this] obtain mig where
    "m_vss_to_migrate m = mig" "m_vss_to_recompute m = pyset_diff act mig"
    by (auto simp: migrate_call_def)
  with assms(3) show ?thesis by (auto simp: set_pyset_diff)
qed

theorem checkpoint_partition_witness:
  "collect_active_vss (snapshots demo_session) (variable_snapshots (graph demo_session)) []
     = Inr [0, 1, 4, 5] \<and>
   Call_migrate demo_migrate_args \<in> set (trace (checkpoint demo_ext demo_args demo_session)) \<and>
   m_vss_to_migrate demo_migrate_args \<subseteq> set [0, 1, 4, 5] \<and>
   m_vss_to_migrate demo_migrate_args \<union> set (m_vss_to_recompute demo_migrate_args)
     = set [0, 1, 4, 5] \<and>
   m_vss_to_migrate demo_migrate_args \<inter> set (m_vss_to_recompute demo_migrate_args) = {}"
proof -
  have m: "Call_migrate demo_migrate_args
             \<in> set (trace (checkpoint demo_ext demo_args demo_session))"
    using demo_run by auto
  have sub: "m_vss_to_migrate demo_migrate_args \<subseteq> set [0, 1, 4, 5]"
    by (simp add: demo_migrate_args_def)
  from checkpoint_partition [OF demo_active m sub] demo_active m sub show ?thesis by blast
qed


text \<open>
  C8: a call of \<^verbatim>\<open>checkpoint\<close> never changes the topology of the dependency graph.
  Whatever the call returns or raises, the graph (the snapshots of every name, their
  order, the compute edges) is the one it started with, and every snapshot is the one it
  was up to its size: name, version, deleted mark and producing edge are untouched.
\<close>

theorem checkpoint_frame:
  "graph (final (checkpoint ext a s)) = graph s \<and>
   snapshots (final (checkpoint ext a s)) r =
     (snapshots s r)\<lparr>size_vs := size_vs (snapshots (final (checkpoint ext a s)) r)\<rparr>"
proof (cases "collect_active_vss (snapshots s) (variable_snapshots (graph s)) []")
  case (Inl e)
  then show ?thesis by (simp add: checkpoint_index_error)
next
  case (Inr act)
  obtain h out err where p: "profile_sizes (profile_variable_size ext) (user_ns a)
      (fingerprint_dict a) act (snapshots s, []) = ((h, out), err)"
    by (metis surj_pair)
  from checkpoint_final [OF Inr p] profile_sizes_frame [OF p, of r] show ?thesis by simp
qed

theorem checkpoint_frame_witness:
  "graph (final (checkpoint demo_ext demo_args demo_session)) = demo_graph \<and>
   snapshots (final (checkpoint demo_ext demo_args demo_session)) 5 =
     (demo_vs ''d'' 0 False)\<lparr>size_vs := size_vs (snapshots (final (checkpoint demo_ext demo_args demo_session)) 5)\<rparr>"
  using checkpoint_frame [of demo_ext demo_args demo_session 5]
  by (simp add: demo_session_def demo_store_def)

lemma blacklisted_iff:
  "blacklisted attr_str \<longleftrightarrow>
     (\<exists>m. attr_str = Some m \<and> (sublist ''dataprep.eda'' m \<or> sublist ''bokeh'' m))"
  by (cases attr_str) (auto simp: blacklisted_def)

text \<open>
  C2: after the profiling loop, an active snapshot whose name has a fingerprint has the
  size \<^verbatim>\<open>np.inf\<close> exactly when the fingerprint holds an \<^verbatim>\<open>UnserializableObj\<close> or the
  \<^verbatim>\<open>__module__\<close> string of the live value contains \<^verbatim>\<open>dataprep.eda\<close> or
  \<^verbatim>\<open>bokeh\<close>; otherwise its size is the byte count the profiling routine returns for
  the live value. Nothing later in the call writes a size, so this is also the size the
  call leaves behind.
\<close>

theorem profiled_size:
  assumes "collect_active_vss (snapshots s) (variable_snapshots (graph s)) [] = Inr act"
      and "profile_sizes (profile_variable_size ext) (user_ns a) (fingerprint_dict a) act
             (snapshots s, []) = ((h, out), None)"
      and "r \<in> set act"
      and "fingerprint_dict a (name (snapshots s r)) = Some entry"
  shows "\<exists>obj. user_ns a (name (snapshots s r)) = Some obj \<and>
           (size_vs (snapshots (final (checkpoint ext a s)) r) = Np_inf \<longleftrightarrow>
              item2 entry = UnserializableObj \<or>
              (\<exists>m. module_attr obj = Some m \<and> (sublist ''dataprep.eda'' m \<or> sublist ''bokeh'' m))) \<and>
           (size_vs (snapshots (final (checkpoint ext a s)) r) \<noteq> Np_inf \<longrightarrow>
              size_vs (snapshots (final (checkpoint ext a s)) r) =
                Bytes (profile_variable_size ext obj))"
proof -
  from assms(4) have "fingerprint_dict a (name (snapshots s r)) \<noteq> None" by simp
  from profile_sizes_present [OF assms(2,3) this]
  obtain obj where obj: "user_ns a (name (snapshots s r)) = Some obj" by blast
  from assms(3) have "r \<in> set act \<or> size_vs (snapshots s r) =
      (if item2 entry = UnserializableObj \<or> blacklisted (module_attr obj)
       then Np_inf else Bytes (profile_variable_size ext obj))" by simp
  from profile_sizes_size [OF assms(2) assms(4) obj this]
  have "size_vs (h r) = (if item2 entry = UnserializableObj \<or> blacklisted (module_attr obj)
       then Np_inf else Bytes (profile_variable_size ext obj))" .
  moreover from checkpoint_final(2) [OF assms(1,2)]
  have "snapshots (final (checkpoint ext a s)) = h" .
  ultimately show ?thesis using obj by (auto simp: blacklisted_iff)
qed

theorem profiled_size_witness:
  "\<exists>h. collect_active_vss (snapshots demo_session) (variable_snapshots (graph demo_session)) []
          = Inr [0, 1, 4, 5] \<and>
        profile_sizes (profile_variable_size demo_ext) (user_ns demo_args)
          (fingerprint_dict demo_args) [0, 1, 4, 5] (snapshots demo_session, [])
          = ((h, [warning ''x'']), None) \<and>
        (5::nat) \<in> set [0, 1, 4, 5] \<and>
        fingerprint_dict demo_args (name (snapshots demo_session 5)) = Some (12, {300}, Hashed 3) \<and>
        user_ns demo_args (name (snapshots demo_session 5))
          = Some \<lparr>module_attr = Some ''bokeh.models'', contents = []\<rparr> \<and>
        size_vs (snapshots (final (checkpoint demo_ext demo_args demo_session)) 5) = Np_inf"
proof -
  from demo_profile obtain h where
    p: "profile_sizes (profile_variable_size demo_ext) (user_ns demo_args)
          (fingerprint_dict demo_args) [0, 1, 4, 5] (snapshots demo_session, [])
          = ((h, [warning ''x'']), None)" by blast
  have m: "(5::nat) \<in> set [0, 1, 4, 5]" by simp
  have f: "fingerprint_dict demo_args (name (snapshots demo_session 5)) = Some (12, {300}, Hashed 3)"
    by (simp add: demo_args_def demo_session_def demo_store_def demo_vs_def demo_fingerprints_def)
  have u: "user_ns demo_args (name (snapshots demo_session 5))
          = Some \<lparr>module_attr = Some ''bokeh.models'', contents = []\<rparr>"
    by (simp add: demo_args_def demo_session_def demo_store_def demo_vs_def demo_user_ns_def)
  have b: "sublist ''bokeh'' ''bokeh.models''" by (simp add: sublist_code)
  from profiled_size [OF demo_active p m f] u b
  have "size_vs (snapshots (final (checkpoint demo_ext demo_args demo_session)) 5) = Np_inf"
    by auto
  with demo_active p m f u show ?thesis by blast
qed

lemma distinct_count_one: "distinct xs \<Longrightarrow> x \<in> set xs \<Longrightarrow> count_list xs x = 1"
  by (induction xs) auto

text \<open>
  C3, as the code has it: the pairs are ordered. The collection holds exactly the pairs
  \<open>(r1, r2)\<close> of two different active snapshots whose names both have a fingerprint and
  whose region sets intersect. When the active set is iterated without repetition, each
  such ordered pair occurs once; the relation is symmetric, so every unordered pair occurs
  twice, once in each order.
\<close>

theorem overlapping_pairs:
  "set (find_overlapping_vss h fp act) =
     {(r1, r2). r1 \<in> set act \<and> r2 \<in> set act \<and> r1 \<noteq> r2 \<and>
        (\<exists>e1 e2. fp (name (h r1)) = Some e1 \<and> fp (name (h r2)) = Some e2 \<and>
                  item1 e1 \<inter> item1 e2 \<noteq> {})} \<and>
   (distinct act \<longrightarrow> distinct (find_overlapping_vss h fp act)) \<and>
   (distinct act \<and> (r1, r2) \<in> set (find_overlapping_vss h fp act) \<longrightarrow>
      (r2, r1) \<in> set (find_overlapping_vss h fp act) \<and>
      count_list (find_overlapping_vss h fp act) (r1, r2) = 1 \<and>
      count_list (find_overlapping_vss h fp act) (r2, r1) = 1)"
proof (intro conjI impI)
  have sh: "\<And>r1 r2. shares_storage h fp r1 r2 \<longleftrightarrow>
      (\<exists>e1 e2. fp (name (h r1)) = Some e1 \<and> fp (name (h r2)) = Some e2 \<and>
                  item1 e1 \<inter> item1 e2 \<noteq> {})"
    by (auto simp: shares_storage_def split: option.splits)
  show "set (find_overlapping_vss h fp act) =
     {(r1, r2). r1 \<in> set act \<and> r2 \<in> set act \<and> r1 \<noteq> r2 \<and>
        (\<exists>e1 e2. fp (name (h r1)) = Some e1 \<and> fp (name (h r2)) = Some e2 \<and>
                  item1 e1 \<inter> item1 e2 \<noteq> {})}"
    unfolding set_find_overlapping_vss sh ..
next
  assume "distinct act"
  then show "distinct (find_overlapping_vss h fp act)" by (rule distinct_find_overlapping_vss)
next
  assume a: "distinct act \<and> (r1, r2) \<in> set (find_overlapping_vss h fp act)"
  then have "shares_storage h fp r1 r2" "r1 \<in> set act" "r2 \<in> set act" "r1 \<noteq> r2"
    by (auto simp: set_find_overlapping_vss)
  then show sym: "(r2, r1) \<in> set (find_overlapping_vss h fp act)"
    using shares_storage_sym [of h fp r1 r2] by (auto simp: set_find_overlapping_vss)
  from a have d: "distinct (find_overlapping_vss h fp act)"
    by (simp add: distinct_find_overlapping_vss)
  from d a show "count_list (find_overlapping_vss h fp act) (r1, r2) = 1"
    by (simp add: distinct_count_one)
  from d sym show "count_list (find_overlapping_vss h fp act) (r2, r1) = 1"
    by (simp add: distinct_count_one)
qed

lemma demo_find_overlapping_vss:
  "find_overlapping_vss demo_store demo_fingerprints [0, 1, 4, 5] = [(0, 1), (1, 0)]"
  by (simp add: find_overlapping_vss_eq shares_storage_def demo_store_def demo_vs_def
        demo_fingerprints_def item1_def del: One_nat_def)

theorem overlapping_pairs_witness:
  "distinct [0, 1, 4, 5 :: nat] \<and>
   (0, 1) \<in> set (find_overlapping_vss demo_store demo_fingerprints [0, 1, 4, 5]) \<and>
   (1, 0) \<in> set (find_overlapping_vss demo_store demo_fingerprints [0, 1, 4, 5]) \<and>
   count_list (find_overlapping_vss demo_store demo_fingerprints [0, 1, 4, 5]) (0, 1) = 1 \<and>
   count_list (find_overlapping_vss demo_store demo_fingerprints [0, 1, 4, 5]) (1, 0) = 1"
proof -
  have d: "distinct [0, 1, 4, 5 :: nat]" by simp
  have m: "(0, 1) \<in> set (find_overlapping_vss demo_store demo_fingerprints [0, 1, 4, 5])"
    by (simp only: demo_find_overlapping_vss) simp
  from overlapping_pairs [of demo_store demo_fingerprints "[0, 1, 4, 5]" 0 1] d m
  show ?thesis by blast
qed

theorem overlapping_pairs_counterexample:
  "name (demo_store 0) \<noteq> name (demo_store 1) \<and>
   demo_fingerprints (name (demo_store 0)) = Some (10, {100, 101}, Hashed 1) \<and>
   demo_fingerprints (name (demo_store 1)) = Some (11, {101}, Hashed 2) \<and>
   find_overlapping_vss demo_store demo_fingerprints [0, 1, 4, 5] = [(0, 1), (1, 0)] \<and>
   count_list (find_overlapping_vss demo_store demo_fingerprints [0, 1, 4, 5]) (0, 1) +
   count_list (find_overlapping_vss demo_store demo_fingerprints [0, 1, 4, 5]) (1, 0) = 2"
proof -
  have "name (demo_store 0) \<noteq> name (demo_store 1)"
    by (simp add: demo_store_def demo_vs_def)
  moreover have "demo_fingerprints (name (demo_store 0)) = Some (10, {100, 101}, Hashed 1)"
    by (simp add: demo_store_def demo_vs_def demo_fingerprints_def)
  moreover have "demo_fingerprints (name (demo_store 1)) = Some (11, {101}, Hashed 2)"
    by (simp add: demo_store_def demo_vs_def demo_fingerprints_def)
  moreover have "count_list [(0, 1), (1, 0)] (0::nat, 1::nat) +
                 count_list [(0, 1), (1, 0)] (1::nat, 0::nat) = 2"
    by simp
  ultimately show ?thesis by (simp only: demo_find_overlapping_vss) simp
qed

text \<open>
  C6, as the code has it: the active set holds, for every tracked name, the latest
  snapshot of that name when that snapshot is not marked deleted, and nothing for a name
  whose latest snapshot is marked deleted, whatever its earlier versions are. The set is
  a function of the graph and the snapshots, and no snapshot is in it twice. A name
  without any version makes the source raise \<^verbatim>\<open>IndexError\<close>, hence the hypothesis.
\<close>

theorem active_vss_latest:
  assumes "\<forall>(k, vs_list) \<in> set (variable_snapshots g). vs_list \<noteq> []"
  shows "\<exists>act. collect_active_vss h (variable_snapshots g) [] = Inr act \<and> distinct act \<and>
           set act = {last vs_list |k vs_list.
                        (k, vs_list) \<in> set (variable_snapshots g) \<and> \<not> deleted (h (last vs_list))}"
proof -
  from collect_active_vss_Inr [OF assms, of h "[]"] show ?thesis by auto
qed

theorem active_vss_latest_witness:
  "[] \<notin> snd ` set (variable_snapshots demo_graph) \<and>
   collect_active_vss demo_store (variable_snapshots demo_graph) [] = Inr [0, 1, 4, 5] \<and>
   set [0, 1, 4, 5] = {last vs_list |k vs_list.
      (k, vs_list) \<in> set (variable_snapshots demo_graph) \<and> \<not> deleted (demo_store (last vs_list))}"
proof -
  have ne: "\<forall>(k, vs_list) \<in> set (variable_snapshots demo_graph). vs_list \<noteq> []"
    by (simp add: demo_graph_def)
  have act: "collect_active_vss demo_store (variable_snapshots demo_graph) [] = Inr [0, 1, 4, 5]"
    using demo_active by (simp add: demo_session_def)
  have ne': "[] \<notin> snd ` set (variable_snapshots demo_graph)"
    by (simp add: demo_graph_def)
  from active_vss_latest [OF ne, of demo_store] act ne' show ?thesis by auto
qed

theorem active_vss_latest_counterexample:
  "most_recent_undeleted demo_store [2, 3] = Some 2 \<and>
   active_snapshots_spec demo_store (variable_snapshots demo_graph) = [0, 1, 2, 4, 5] \<and>
   collect_active_vss demo_store (variable_snapshots demo_graph) [] = Inr [0, 1, 4, 5]"
proof -
  have "most_recent_undeleted demo_store [2, 3] = Some 2"
    by (simp add: most_recent_undeleted_def demo_store_def demo_vs_def)
  moreover have "active_snapshots_spec demo_store (variable_snapshots demo_graph) = [0, 1, 2, 4, 5]"
    by (simp add: active_snapshots_spec_def most_recent_undeleted_def demo_store_def demo_vs_def
        demo_graph_def List.map_filter_simps)
  moreover have "collect_active_vss demo_store (variable_snapshots demo_graph) [] = Inr [0, 1, 4, 5]"
    using demo_active by (simp add: demo_session_def)
  ultimately show ?thesis by blast
qed









text \<open>
  C9: the live value of every fingerprinted active snapshot must be in the namespace.
  When an active snapshot has a fingerprint and its name is not in \<^verbatim>\<open>shell.user_ns\<close>,
  the call raises \<^verbatim>\<open>KeyError\<close> for such a name during profiling: the selector and
  the writer are never called.
\<close>

theorem missing_value_raises:
  assumes "collect_active_vss (snapshots s) (variable_snapshots (graph s)) [] = Inr act"
      and "r \<in> set act"
      and "fingerprint_dict a (name (snapshots s r)) \<noteq> None"
      and "user_ns a (name (snapshots s r)) = None"
  shows "(\<exists>r' \<in> set act. result (checkpoint ext a s) = Inl (KeyError (name (snapshots s r'))) \<and>
            fingerprint_dict a (name (snapshots s r')) \<noteq> None \<and>
            user_ns a (name (snapshots s r')) = None) \<and>
         trace (checkpoint ext a s) = []"
proof -
  obtain h out err where p: "profile_sizes (profile_variable_size ext) (user_ns a)
      (fingerprint_dict a) act (snapshots s, []) = ((h, out), err)"
    by (metis surj_pair)
  have "err \<noteq> None"
  proof
    assume "err = None"
    with p profile_sizes_present [of "profile_variable_size ext" "user_ns a" "fingerprint_dict a"
        act "snapshots s" "[]" h out r] assms(2,3,4)
    show False by simp
  qed
  then obtain e where e: "err = Some e" by blast
  from profile_sizes_error [OF p [unfolded e]] checkpoint_key_error [OF assms(1) p [unfolded e]]
  show ?thesis by auto
qed

theorem missing_value_raises_witness:
  "collect_active_vss (snapshots demo_session) (variable_snapshots (graph demo_session)) []
     = Inr [0, 1, 4, 5] \<and>
   (0::nat) \<in> set [0, 1, 4, 5] \<and>
   fingerprint_dict demo_args_without_a (name (snapshots demo_session 0)) \<noteq> None \<and>
   user_ns demo_args_without_a (name (snapshots demo_session 0)) = None \<and>
   result (checkpoint demo_ext demo_args_without_a demo_session) = Inl (KeyError ''a'') \<and>
   trace (checkpoint demo_ext demo_args_without_a demo_session) = []"
proof -
  have m: "(0::nat) \<in> set [0, 1, 4, 5]" by simp
  have f: "fingerprint_dict demo_args_without_a (name (snapshots demo_session 0)) \<noteq> None"
    by (simp add: demo_args_without_a_def demo_args_def demo_fingerprints_def demo_session_def
        demo_store_def demo_vs_def)
  have u: "user_ns demo_args_without_a (name (snapshots demo_session 0)) = None"
    by (simp add: demo_args_without_a_def demo_args_def demo_session_def demo_store_def
        demo_vs_def)
  have n: "\<forall>r' \<in> set [0, 1, 4, 5 :: nat].
      user_ns demo_args_without_a (name (snapshots demo_session r')) = None \<longrightarrow>
      name (snapshots demo_session r') = ''a''"
    by (simp add: demo_args_without_a_def demo_args_def demo_session_def demo_store_def
        demo_vs_def demo_user_ns_def)
  from missing_value_raises [OF demo_active m f u, of demo_ext] n
  have "result (checkpoint demo_ext demo_args_without_a demo_session) = Inl (KeyError ''a'')"
    "trace (checkpoint demo_ext demo_args_without_a demo_session) = []"
    by auto
  with demo_active m f u show ?thesis by blast
qed







end
